theory Spec2Isabelle
  imports Main "HOL-Library.Word" "HOL-Library.Stream"
begin

section \<open>The finite-state machine walker of hw1/FSMDesign/FSM.cpp\<close>

text \<open>
  The program is a single \<open>main\<close>: a definition phase that reads the number of states,
  the number of transitions, the transitions and the starting state from \<open>cin\<close>, and an
  executor, \<open>while (true)\<close>, that reads a requested next state and scans the transition
  table for it.

  The C++ \<open>int\<close> is a 32-bit word, read as two's complement by \<open>sint\<close>. The loop
  counters are \<open>size_t\<close>; they only count upwards from 0 to a bound below \<open>2 ^ 64\<close>, so
  they never wrap and are natural numbers here. Comparing a counter with an \<open>int\<close>
  bound converts the bound to \<open>size_t\<close>, which \<open>size_t_of\<close> writes out.
\<close>

type_synonym cint = "32 word"

definition size_t_of :: "cint \<Rightarrow> nat" where
  "size_t_of n = unat (scast n :: 64 word)"

text \<open>
  \<open>cin\<close> is the stream of integers still to be read: every \<open>cin >> x\<close> takes its head.
  The input is taken to be an unending sequence of well-formed integers; what the program
  does on malformed input or at the end of the input is outside the model.
  \<open>cout\<close> is the list of the items inserted so far with \<open><<\<close>, one per insertion: a
  string literal, an \<open>int\<close> or a \<open>size_t\<close>.
\<close>

datatype item = Text string | IntVal cint | SizeVal nat

text \<open>
  Undefined behaviour of the source is an error of the model: an array declared with a
  negative number of cells, and an array cell outside the declared ones. Each loop tests
  the index against the cells its arrays have before it touches a cell.
\<close>

datatype error = NegativeArraySize | OutOfBounds

text \<open>The local variables of \<open>main\<close>, with the two console streams.\<close>

record fsm =
  n_states :: cint
  n_transitions :: cint
  states :: "cint list"
  transitions_head :: "cint list"
  transitions_tail :: "cint list"
  current_state :: cint
  cin :: "cint stream"
  cout :: "item list"

definition print :: "item list \<Rightarrow> fsm \<Rightarrow> fsm" where
  "print items s = s\<lparr>cout := cout s @ items\<rparr>"

subsection \<open>The definition phase\<close>

text \<open>\<open>for (size_t i = 0; i < n_states; i++) states[i] = i;\<close>\<close>

function fill_states :: "nat \<Rightarrow> fsm \<Rightarrow> error + fsm" where
  "fill_states i s =
     (if i < size_t_of (n_states s) then
        if i < length (states s)
        then fill_states (i + 1) (s\<lparr>states := (states s)[i := of_nat i]\<rparr>)
        else Inl OutOfBounds
      else Inr s)"
  by pat_completeness auto
termination
  by (relation "measure (\<lambda>(i, s). size_t_of (n_states s) - i)") auto

text \<open>
  \<open>for (size_t i = 0; i < n_transitions; i++) {
     cout << "transition number " << i+1 << " : ";
     cin >> transitions_head[i] >> transitions_tail[i]; }\<close>
\<close>

function read_transitions :: "nat \<Rightarrow> fsm \<Rightarrow> error + fsm" where
  "read_transitions i s =
     (if i < size_t_of (n_transitions s) then
        if i < length (transitions_head s) \<and> i < length (transitions_tail s)
        then
          let s1 = print [Text ''transition number '', SizeVal (i + 1), Text '' : ''] s;
              s2 = s1\<lparr>transitions_head := (transitions_head s1)[i := shd (cin s1)],
                      cin := stl (cin s1)\<rparr>;
              s3 = s2\<lparr>transitions_tail := (transitions_tail s2)[i := shd (cin s2)],
                      cin := stl (cin s2)\<rparr>
          in read_transitions (i + 1) s3
        else Inl OutOfBounds
      else Inr s)"
  by pat_completeness auto
termination
  by (relation "measure (\<lambda>(i, s). size_t_of (n_transitions s) - i)")
    (auto simp: print_def)

text \<open>
  The head of \<open>main\<close>, up to the \<open>while\<close>. The three arrays are declared with
  \<open>n_states\<close> and \<open>n_transitions\<close> cells; a negative count is undefined behaviour, and
  with a count of 0 the array is empty and its loop does nothing. The cells and
  \<open>current_state\<close> start indeterminate; the model starts them at 0, and every one of them
  that is read later is written first.
\<close>

definition definition_phase :: "cint stream \<Rightarrow> error + fsm" where
  "definition_phase input =
     (let out = [Text ''number of state and transitions: ''];
          n_states = shd input;
          n_transitions = shd (stl input);
          input = stl (stl input)
      in if sint n_states < 0 \<or> sint n_transitions < 0 then Inl NegativeArraySize
         else
           let s = \<lparr>n_states = n_states, n_transitions = n_transitions,
                    states = replicate (size_t_of n_states) 0,
                    transitions_head = replicate (size_t_of n_transitions) 0,
                    transitions_tail = replicate (size_t_of n_transitions) 0,
                    current_state = 0, cin = input, cout = out\<rparr>
           in case fill_states 0 s of
                Inl e \<Rightarrow> Inl e
              | Inr s \<Rightarrow>
                 (case read_transitions 0 s of
                    Inl e \<Rightarrow> Inl e
                  | Inr s \<Rightarrow>
                      let s = print [Text ''starting state: ''] s
                      in Inr (s\<lparr>current_state := shd (cin s), cin := stl (cin s)\<rparr>)))"

subsection \<open>The executor\<close>

text \<open>
  The scan of one iteration, from index \<open>i\<close>:
  \<open>for (size_t i = 0; i < n_transitions; i++)
     if (transitions_head[i] == current_state && transitions_tail[i] != next_state)
       { cout << "illegal transition, not defined in transitions table\n"; break; }
     else if (transitions_head[i] == current_state && transitions_tail[i] == next_state)
       { cout << "transition successful\n"; current_state = next_state; break; }\<close>
\<close>

definition illegal :: item where
  "illegal = Text ''illegal transition, not defined in transitions table\<newline>''"

definition successful :: item where
  "successful = Text ''transition successful\<newline>''"

function scan :: "nat \<Rightarrow> cint \<Rightarrow> fsm \<Rightarrow> error + fsm" where
  "scan i next_state s =
     (if i < size_t_of (n_transitions s) then
        if i < length (transitions_head s) \<and> i < length (transitions_tail s)
        then
          if transitions_head s ! i = current_state s \<and> transitions_tail s ! i \<noteq> next_state
          then Inr (print [illegal] s)
          else if transitions_head s ! i = current_state s \<and> transitions_tail s ! i = next_state
          then Inr ((print [successful] s)\<lparr>current_state := next_state\<rparr>)
          else scan (i + 1) next_state s
        else Inl OutOfBounds
      else Inr s)"
  by pat_completeness auto
termination
  by (relation "measure (\<lambda>(i, next_state, s). size_t_of (n_transitions s) - i)") auto

text \<open>
  One iteration of \<open>while (true)\<close>:
  \<open>cout << "current state: " << current_state << "\n";
   int next_state; cout << "next state: "; cin >> next_state;\<close> and the scan.
\<close>

definition loop_body :: "fsm \<Rightarrow> error + fsm" where
  "loop_body s =
     (let s = print [Text ''current state: '', IntVal (current_state s), Text ''\<newline>''] s;
          s = print [Text ''next state: ''] s;
          next_state = shd (cin s);
          s = s\<lparr>cin := stl (cin s)\<rparr>
      in scan 0 next_state s)"

text \<open>
  \<open>while (true) { ... } return 0;\<close>: the loop has no exit of its own, so the value of
  the executor is \<open>None\<close> when it never returns. It stops only on undefined behaviour.
\<close>

partial_function (option) executor :: "fsm \<Rightarrow> (error + int) option" where
  "executor s = (case loop_body s of Inl e \<Rightarrow> Some (Inl e) | Inr s' \<Rightarrow> executor s')"

definition main :: "cint stream \<Rightarrow> (error + int) option" where
  "main input = (case definition_phase input of Inl e \<Rightarrow> Some (Inl e) | Inr s \<Rightarrow> executor s)"

text \<open>The state of \<open>main\<close> after the first \<open>k\<close> iterations of the executor.\<close>

fun session :: "nat \<Rightarrow> fsm \<Rightarrow> error + fsm" where
  "session 0 s = Inr s"
| "session (Suc k) s = (case loop_body s of Inl e \<Rightarrow> Inl e | Inr s' \<Rightarrow> session k s')"

text \<open>\<open>main\<close> up to the end of the \<open>k\<close>-th iteration of the executor.\<close>

definition main_upto :: "nat \<Rightarrow> cint stream \<Rightarrow> error + fsm" where
  "main_upto k input =
     (case definition_phase input of Inl e \<Rightarrow> Inl e | Inr s \<Rightarrow> session k s)"

subsection \<open>Notions used to state the properties\<close>

text \<open>
  The two transition arrays have the \<open>n_transitions\<close> cells they were declared with.
  The source declares them so and never resizes them; the definition phase establishes
  \<open>table_ok\<close> and every iteration keeps it.
\<close>

definition table_ok :: "fsm \<Rightarrow> bool" where
  "table_ok s \<longleftrightarrow>
     length (transitions_head s) = size_t_of (n_transitions s) \<and>
     length (transitions_tail s) = size_t_of (n_transitions s)"

text \<open>What was inserted into \<open>cout\<close> between the state \<open>s\<close> and the later state \<open>s'\<close>.\<close>

definition printed :: "fsm \<Rightarrow> fsm \<Rightarrow> item list" where
  "printed s s' = drop (length (cout s)) (cout s')"

text \<open>
  A valid state identifier lies in \<open>[0, n_states)\<close>. The source never compares a state
  with \<open>n_states\<close>; the predicate is only used to state what the program keeps.
\<close>

definition valid_state :: "fsm \<Rightarrow> cint \<Rightarrow> bool" where
  "valid_state s x \<longleftrightarrow> 0 \<le> sint x \<and> sint x < sint (n_states s)"

definition current_state_valid :: "fsm \<Rightarrow> bool" where
  "current_state_valid s = valid_state s (current_state s)"

text \<open>
  Within one iteration: the items inserted before the scan, and the state in which the
  scan starts, after the two prompts and the read of \<open>next_state\<close>.
\<close>

definition prompts :: "fsm \<Rightarrow> item list" where
  "prompts s = [Text ''current state: '', IntVal (current_state s), Text ''\<newline>'',
                Text ''next state: '']"

definition asked :: "fsm \<Rightarrow> fsm" where
  "asked s = s\<lparr>cout := cout s @ prompts s, cin := stl (cin s)\<rparr>"

text \<open>A state with \<open>n_states\<close> and the \<open>states\<close> array blanked, to compare two runs.\<close>

definition without_states :: "fsm \<Rightarrow> fsm" where
  "without_states s =
     \<lparr>n_states = 0, n_transitions = n_transitions s, states = [],
      transitions_head = transitions_head s, transitions_tail = transitions_tail s,
      current_state = current_state s, cin = cin s, cout = cout s\<rparr>"

subsection \<open>Example machines\<close>

text \<open>
  The table \<open>(0,1), (1,2)\<close> over three states, in state \<open>c\<close> with the request \<open>r\<close> next
  on \<open>cin\<close>, and what the definition phase prints while reading that table.
\<close>

definition chain_fsm :: "cint \<Rightarrow> cint \<Rightarrow> fsm" where
  "chain_fsm c r =
     \<lparr>n_states = 3, n_transitions = 2, states = [0, 1, 2],
      transitions_head = [0, 1], transitions_tail = [1, 2],
      current_state = c, cin = r ## sconst 0, cout = []\<rparr>"

definition chain_loading :: "item list" where
  "chain_loading =
     [Text ''number of state and transitions: '',
      Text ''transition number '', SizeVal 1, Text '' : '',
      Text ''transition number '', SizeVal 2, Text '' : '',
      Text ''starting state: '']"

text \<open>
  The table \<open>(1,2), (0,2), (0,1)\<close> in state 0: two transitions leave state 0, and the
  one to state 1 is stored after the one to state 2.
\<close>

definition branching_fsm :: fsm where
  "branching_fsm =
     \<lparr>n_states = 3, n_transitions = 3, states = [0, 1, 2],
      transitions_head = [1, 0, 0], transitions_tail = [2, 2, 1],
      current_state = 0, cin = sconst 0, cout = []\<rparr>"

declare fill_states.simps [simp del] read_transitions.simps [simp del] scan.simps [simp del]

section \<open>Properties\<close>

subsection \<open>The scan\<close>

lemma scan_cases:
  "scan i next_state s = Inr s' \<Longrightarrow>
     s' = s \<or> s' = print [illegal] s \<or>
     s' = (print [successful] s)\<lparr>current_state := next_state\<rparr> \<and>
       next_state \<in> set (transitions_tail s)"
proof (induction i next_state s rule: scan.induct)
  case (1 i next_state s)
  from "1.prems" show ?case
    by (subst (asm) scan.simps) (auto split: if_splits dest: "1.IH")
qed

lemma scan_no_match:
  "table_ok s \<Longrightarrow>
   \<forall>j. i \<le> j \<and> j < size_t_of (n_transitions s) \<longrightarrow>
     transitions_head s ! j \<noteq> current_state s \<Longrightarrow>
   scan i next_state s = Inr s"
proof (induction i next_state s rule: scan.induct)
  case (1 i next_state s)
  show ?case
  proof (cases "i < size_t_of (n_transitions s)")
    case True
    with "1.prems" have "transitions_head s ! i \<noteq> current_state s" by simp
    moreover have "scan (i + 1) next_state s = Inr s"
      using True "1.prems" by (intro "1.IH") (auto simp: table_ok_def)
    ultimately show ?thesis
      using True "1.prems"(1) by (subst scan.simps) (simp add: table_ok_def)
  next
    case False
    then show ?thesis by (subst scan.simps) simp
  qed
qed

lemma scan_first_match:
  "table_ok s \<Longrightarrow> i0 \<le> i \<Longrightarrow> i < size_t_of (n_transitions s) \<Longrightarrow>
   transitions_head s ! i = current_state s \<Longrightarrow>
   \<forall>j. i0 \<le> j \<and> j < i \<longrightarrow> transitions_head s ! j \<noteq> current_state s \<Longrightarrow>
   scan i0 next_state s =
     Inr (if transitions_tail s ! i = next_state
          then (print [successful] s)\<lparr>current_state := next_state\<rparr>
          else print [illegal] s)"
proof (induction i0 next_state s rule: scan.induct)
  case (1 i0 next_state s)
  have in_range: "i0 < size_t_of (n_transitions s)" "i0 < length (transitions_head s)"
    "i0 < length (transitions_tail s)"
    using "1.prems" by (auto simp: table_ok_def)
  show ?case
  proof (cases "i0 = i")
    case True
    then show ?thesis
      using in_range "1.prems"(4) by (subst scan.simps) simp
  next
    case False
    with "1.prems" have lt: "i0 < i" and miss: "transitions_head s ! i0 \<noteq> current_state s"
      by auto
    have "scan (i0 + 1) next_state s =
            Inr (if transitions_tail s ! i = next_state
                 then (print [successful] s)\<lparr>current_state := next_state\<rparr>
                 else print [illegal] s)"
      using in_range miss lt "1.prems" by (intro "1.IH") auto
    then show ?thesis
      using in_range miss by (subst scan.simps) simp
  qed
qed

lemma scan_total: "table_ok s \<Longrightarrow> \<exists>s'. scan i next_state s = Inr s'"
proof (induction i next_state s rule: scan.induct)
  case (1 i next_state s)
  show ?case
  proof (cases "i < size_t_of (n_transitions s)")
    case True
    then show ?thesis
      using "1.prems" "1.IH" by (subst scan.simps) (auto simp: table_ok_def)
  next
    case False
    then show ?thesis by (subst scan.simps) simp
  qed
qed

subsection \<open>One iteration\<close>

lemma loop_body_scan: "loop_body s = scan 0 (shd (cin s)) (asked s)"
  by (simp add: loop_body_def asked_def prompts_def print_def Let_def)

lemma table_ok_asked [simp]: "table_ok (asked s) = table_ok s"
  by (simp add: table_ok_def asked_def)

lemma loop_body_cases:
  assumes "loop_body s = Inr s'"
  shows "s' = asked s \<or> s' = print [illegal] (asked s) \<or>
         s' = (print [successful] (asked s))\<lparr>current_state := shd (cin s)\<rparr> \<and>
           shd (cin s) \<in> set (transitions_tail s)"
  using assms scan_cases [of 0 "shd (cin s)" "asked s" s']
  by (auto simp: loop_body_scan asked_def)

lemma successful_not_prompt: "successful \<notin> set (prompts s)"
  by (simp add: successful_def prompts_def)

lemma illegal_not_prompt: "illegal \<notin> set (prompts s)"
  by (simp add: illegal_def prompts_def)

lemma successful_not_illegal: "successful \<noteq> illegal"
  by (simp add: successful_def illegal_def)

lemma printed_asked [simp]: "printed s (asked s) = prompts s"
  by (simp add: printed_def asked_def)

lemma printed_illegal [simp]: "printed s (print [illegal] (asked s)) = prompts s @ [illegal]"
  by (simp add: printed_def asked_def print_def)

lemma printed_successful [simp]:
  "printed s ((print [successful] (asked s))\<lparr>current_state := x\<rparr>) = prompts s @ [successful]"
  by (simp add: printed_def asked_def print_def)

lemma loop_body_total: "table_ok s \<Longrightarrow> \<exists>s'. loop_body s = Inr s'"
  using scan_total [of "asked s" 0 "shd (cin s)"] by (simp add: loop_body_scan)

lemma loop_body_frame:
  assumes "loop_body s = Inr s'"
  shows "n_states s' = n_states s" "n_transitions s' = n_transitions s" "states s' = states s"
    "transitions_head s' = transitions_head s" "transitions_tail s' = transitions_tail s"
    "cin s' = stl (cin s)"
  using loop_body_cases [OF assms] by (auto simp: asked_def print_def)

lemma loop_body_table_ok: "loop_body s = Inr s' \<Longrightarrow> table_ok s \<Longrightarrow> table_ok s'"
  by (simp add: table_ok_def loop_body_frame)

subsection \<open>Sessions\<close>

lemma session_total: "table_ok s \<Longrightarrow> \<exists>s'. session k s = Inr s' \<and> table_ok s'"
proof (induction k arbitrary: s)
  case 0
  then show ?case by simp
next
  case (Suc k)
  from loop_body_total [OF Suc.prems] obtain t where t: "loop_body s = Inr t" ..
  with Suc.prems have "table_ok t" by (simp add: loop_body_table_ok)
  from Suc.IH [OF this] t show ?case by simp
qed

lemma session_frame:
  "session k s = Inr s' \<Longrightarrow>
     n_states s' = n_states s \<and> n_transitions s' = n_transitions s \<and> states s' = states s \<and>
     transitions_head s' = transitions_head s \<and> transitions_tail s' = transitions_tail s"
proof (induction k arbitrary: s)
  case 0
  then show ?case by simp
next
  case (Suc k)
  then obtain t where t: "loop_body s = Inr t" and rest: "session k t = Inr s'"
    by (auto split: sum.splits)
  from Suc.IH [OF rest] loop_body_frame [OF t] show ?case by simp
qed

lemma executor_not_Some:
  assumes "executor s = Some y"
  shows "\<not> table_ok s"
proof (rule executor.raw_induct [where P = "\<lambda>s y. \<not> table_ok s", OF _ assms])
  fix f s y
  assume IH: "\<And>s y. f s = Some y \<Longrightarrow> \<not> table_ok s"
    and step: "(case loop_body s of Inl e \<Rightarrow> Some (Inl e) | Inr s' \<Rightarrow> f s') = Some y"
  show "\<not> table_ok s"
  proof
    assume ok: "table_ok s"
    from loop_body_total [OF ok] obtain t where t: "loop_body s = Inr t" ..
    with ok have "table_ok t" by (simp add: loop_body_table_ok)
    moreover from step t have "f t = Some y" by simp
    ultimately show False using IH by blast
  qed
qed

subsection \<open>The definition phase\<close>

lemma fill_states_result: "fill_states i s = Inr s' \<Longrightarrow> \<exists>xs. s' = s\<lparr>states := xs\<rparr>"
proof (induction i s rule: fill_states.induct)
  case (1 i s)
  show ?case
  proof (cases "i < size_t_of (n_states s)")
    case True
    with "1.prems" have in_range: "i < length (states s)"
      and "fill_states (i + 1) (s\<lparr>states := (states s)[i := of_nat i]\<rparr>) = Inr s'"
      by (subst (asm) fill_states.simps, simp split: if_splits)+
    with True "1.IH" obtain xs
      where "s' = s\<lparr>states := (states s)[i := of_nat i]\<rparr>\<lparr>states := xs\<rparr>"
      by blast
    then show ?thesis by auto
  next
    case False
    with "1.prems" have "s' = s" by (subst (asm) fill_states.simps) simp
    then have "s' = s\<lparr>states := states s\<rparr>" by simp
    then show ?thesis ..
  qed
qed

lemma read_transitions_table_ok:
  "read_transitions i s = Inr s' \<Longrightarrow> table_ok s \<Longrightarrow> table_ok s'"
proof (induction i s rule: read_transitions.induct)
  case (1 i s)
  show ?case
  proof (cases "i < size_t_of (n_transitions s)")
    case True
    with "1.prems"(1)
    have in_range: "i < length (transitions_head s) \<and> i < length (transitions_tail s)"
      by (simp add: read_transitions.simps [of i s] split: if_splits)
    note IH = "1.IH" [OF True in_range refl refl refl]
    from "1.prems" True in_range IH show ?thesis
      by (simp add: read_transitions.simps [of i s] Let_def print_def table_ok_def)
  next
    case False
    with "1.prems" show ?thesis by (simp add: read_transitions.simps [of i s])
  qed
qed

lemma definition_phase_table_ok:
  assumes "definition_phase input = Inr s"
  shows "table_ok s"
proof -
  define s0 where "s0 = \<lparr>n_states = shd input, n_transitions = shd (stl input),
      states = replicate (size_t_of (shd input)) 0,
      transitions_head = replicate (size_t_of (shd (stl input))) 0,
      transitions_tail = replicate (size_t_of (shd (stl input))) 0,
      current_state = 0, cin = stl (stl input),
      cout = [Text ''number of state and transitions: '']\<rparr>"
  from assms obtain s1 s2 where s1: "fill_states 0 s0 = Inr s1"
    and s2: "read_transitions 0 s1 = Inr s2"
    and s: "s = (print [Text ''starting state: ''] s2)
                 \<lparr>current_state := shd (cin s2), cin := stl (cin s2)\<rparr>"
    by (auto simp: definition_phase_def Let_def s0_def print_def split: if_splits sum.splits)
  have "table_ok s0" by (simp add: table_ok_def s0_def)
  with fill_states_result [OF s1] have "table_ok s1" by (auto simp: table_ok_def)
  with s2 have "table_ok s2" by (rule read_transitions_table_ok)
  with s show ?thesis by (simp add: table_ok_def print_def)
qed

text \<open>
  The table the definition phase leaves is the input, pair by pair: the value the model
  gives to a cell before it is written does not show.
\<close>

lemma read_transitions_loaded:
  "read_transitions i s = Inr s' \<Longrightarrow> table_ok s \<Longrightarrow> j < size_t_of (n_transitions s) \<Longrightarrow>
     transitions_head s' ! j =
       (if j < i then transitions_head s ! j else cin s !! (2 * (j - i))) \<and>
     transitions_tail s' ! j =
       (if j < i then transitions_tail s ! j else cin s !! (2 * (j - i) + 1))"
proof (induction i s rule: read_transitions.induct)
  case (1 i s)
  show ?case
  proof (cases "i < size_t_of (n_transitions s)")
    case True
    with "1.prems"(2)
    have in_range: "i < length (transitions_head s) \<and> i < length (transitions_tail s)"
      by (simp add: table_ok_def)
    note IH = "1.IH" [OF True in_range refl refl refl]
    have shift2: "stl (stl (cin s)) !! (2 * (j - Suc i)) = cin s !! (2 * (j - i))"
      "stl (stl (cin s)) !! Suc (2 * (j - Suc i)) = cin s !! Suc (2 * (j - i))"
      if "i < j"
    proof -
      from that have "2 * (j - i) = Suc (Suc (2 * (j - Suc i)))" by simp
      then show "stl (stl (cin s)) !! (2 * (j - Suc i)) = cin s !! (2 * (j - i))"
        "stl (stl (cin s)) !! Suc (2 * (j - Suc i)) = cin s !! Suc (2 * (j - i))"
        by simp_all
    qed
    consider "j < i" | "j = i" | "i < j" by linarith
    then show ?thesis
    proof cases
      case 1
      with "1.prems" True in_range IH show ?thesis
        by (simp add: read_transitions.simps [of i s] Let_def print_def table_ok_def)
    next
      case 2
      with "1.prems" True in_range IH show ?thesis
        by (simp add: read_transitions.simps [of i s] Let_def print_def table_ok_def)
    next
      case 3
      with "1.prems" True in_range IH shift2 show ?thesis
        by (simp add: read_transitions.simps [of i s] Let_def print_def table_ok_def)
    qed
  next
    case False
    with "1.prems" show ?thesis by (simp add: read_transitions.simps [of i s])
  qed
qed

lemma read_transitions_cin:
  "read_transitions i s = Inr s' \<Longrightarrow> table_ok s \<Longrightarrow>
     cin s' = sdrop (2 * (size_t_of (n_transitions s) - i)) (cin s)"
proof (induction i s rule: read_transitions.induct)
  case (1 i s)
  show ?case
  proof (cases "i < size_t_of (n_transitions s)")
    case True
    with "1.prems"(2)
    have in_range: "i < length (transitions_head s) \<and> i < length (transitions_tail s)"
      by (simp add: table_ok_def)
    note IH = "1.IH" [OF True in_range refl refl refl]
    from True have "2 * (size_t_of (n_transitions s) - i) =
        Suc (Suc (2 * (size_t_of (n_transitions s) - Suc i)))"
      by simp
    with "1.prems" True in_range IH show ?thesis
      by (simp add: read_transitions.simps [of i s] Let_def print_def table_ok_def)
  next
    case False
    with "1.prems" show ?thesis by (simp add: read_transitions.simps [of i s])
  qed
qed


lemma read_transitions_frame:
  "read_transitions i s = Inr s' \<Longrightarrow>
     n_states s' = n_states s \<and> n_transitions s' = n_transitions s \<and> states s' = states s"
proof (induction i s rule: read_transitions.induct)
  case (1 i s)
  show ?case
  proof (cases "i < size_t_of (n_transitions s)")
    case True
    with "1.prems"(1)
    have in_range: "i < length (transitions_head s) \<and> i < length (transitions_tail s)"
      by (simp add: read_transitions.simps [of i s] split: if_splits)
    note IH = "1.IH" [OF True in_range refl refl refl]
    from "1.prems" True in_range IH show ?thesis
      by (simp add: read_transitions.simps [of i s] Let_def print_def)
  next
    case False
    with "1.prems" show ?thesis by (simp add: read_transitions.simps [of i s])
  qed
qed

lemma definition_phase_loaded:
  assumes "definition_phase input = Inr s"
  shows "n_states s = input !! 0" and "n_transitions s = input !! 1"
    and "j < size_t_of (n_transitions s) \<Longrightarrow> transitions_head s ! j = input !! (2 + 2 * j)"
    and "j < size_t_of (n_transitions s) \<Longrightarrow> transitions_tail s ! j = input !! (3 + 2 * j)"
    and "current_state s = input !! (2 + 2 * size_t_of (n_transitions s))"
    and "cin s = sdrop (3 + 2 * size_t_of (n_transitions s)) input"
proof -
  define s0 where "s0 = \<lparr>n_states = shd input, n_transitions = shd (stl input),
      states = replicate (size_t_of (shd input)) 0,
      transitions_head = replicate (size_t_of (shd (stl input))) 0,
      transitions_tail = replicate (size_t_of (shd (stl input))) 0,
      current_state = 0, cin = stl (stl input),
      cout = [Text ''number of state and transitions: '']\<rparr>"
  from assms obtain s1 s2 where s1: "fill_states 0 s0 = Inr s1"
    and s2: "read_transitions 0 s1 = Inr s2"
    and s: "s = (print [Text ''starting state: ''] s2)
                 \<lparr>current_state := shd (cin s2), cin := stl (cin s2)\<rparr>"
    by (auto simp: definition_phase_def Let_def s0_def print_def split: if_splits sum.splits)
  from fill_states_result [OF s1] obtain xs where xs: "s1 = s0\<lparr>states := xs\<rparr>" ..
  then have ok: "table_ok s1" and n1: "n_transitions s1 = shd (stl input)"
    and c1: "cin s1 = stl (stl input)" and m1: "n_states s1 = shd input"
    by (simp_all add: table_ok_def s0_def)
  from s2 ok have ok2: "table_ok s2" by (rule read_transitions_table_ok)
  have n2: "n_transitions s2 = n_transitions s1" "n_states s2 = n_states s1"
    using read_transitions_frame [OF s2] by simp_all
  show "n_states s = input !! 0" using s n2 m1 by (simp add: print_def)
  show "n_transitions s = input !! 1" using s n2 n1 by (simp add: print_def)
  show "transitions_head s ! j = input !! (2 + 2 * j)" if "j < size_t_of (n_transitions s)"
    using read_transitions_loaded [OF s2 ok, of j] that s n2 n1 c1 by (simp add: print_def)
  show "transitions_tail s ! j = input !! (3 + 2 * j)" if "j < size_t_of (n_transitions s)"
    using read_transitions_loaded [OF s2 ok, of j] that s n2 n1 c1 
    by (simp add: print_def numeral_3_eq_3)
  show "current_state s = input !! (2 + 2 * size_t_of (n_transitions s))"
    using read_transitions_cin [OF s2 ok] s n2 n1 c1 by (simp add: print_def sdrop_snth)
  show "cin s = sdrop (3 + 2 * size_t_of (n_transitions s)) input"
    using read_transitions_cin [OF s2 ok] s n2 n1 c1 by (simp add: print_def numeral_3_eq_3)
qed

text \<open>Once the definition phase is through, \<open>main\<close> does not return.\<close>

lemma main_never_returns:
  assumes "definition_phase input = Inr s"
  shows "main input = None"
proof (cases "main input")
  case None
  then show ?thesis .
next
  case (Some y)
  with assms have "executor s = Some y" by (simp add: main_def)
  then have "\<not> table_ok s" by (rule executor_not_Some)
  with definition_phase_table_ok [OF assms] show ?thesis by simp
qed

subsection \<open>Independence of the states array\<close>

lemma without_states_sel [simp]:
  "n_transitions (without_states s) = n_transitions s"
  "transitions_head (without_states s) = transitions_head s"
  "transitions_tail (without_states s) = transitions_tail s"
  "current_state (without_states s) = current_state s"
  "cin (without_states s) = cin s"
  "cout (without_states s) = cout s"
  by (simp_all add: without_states_def)

lemma without_states_upd [simp]:
  "without_states (s\<lparr>transitions_head := h\<rparr>) = (without_states s)\<lparr>transitions_head := h\<rparr>"
  "without_states (s\<lparr>transitions_tail := t\<rparr>) = (without_states s)\<lparr>transitions_tail := t\<rparr>"
  "without_states (s\<lparr>current_state := c\<rparr>) = (without_states s)\<lparr>current_state := c\<rparr>"
  "without_states (s\<lparr>cin := i\<rparr>) = (without_states s)\<lparr>cin := i\<rparr>"
  "without_states (s\<lparr>cout := out\<rparr>) = (without_states s)\<lparr>cout := out\<rparr>"
  "without_states (s\<lparr>states := xs\<rparr>) = without_states s"
  "without_states (s\<lparr>n_states := n\<rparr>) = without_states s"
  by (simp_all add: without_states_def)

lemma fill_states_without: "fill_states i s = Inr s' \<Longrightarrow> without_states s' = without_states s"
  by (auto dest: fill_states_result)

lemma read_transitions_without:
  "map_sum id without_states (read_transitions i s) = read_transitions i (without_states s)"
proof (induction i s rule: read_transitions.induct)
  case (1 i s)
  show ?case
  proof (cases "i < size_t_of (n_transitions s) \<and> i < length (transitions_head s) \<and>
                i < length (transitions_tail s)")
    case True
    then have a: "i < size_t_of (n_transitions s)"
      and b: "i < length (transitions_head s) \<and> i < length (transitions_tail s)"
      by auto
    note IH = "1.IH" [OF a b refl refl refl]
    from True IH show ?thesis
      by (simp add: read_transitions.simps [of i s]
          read_transitions.simps [of i "without_states s"] Let_def print_def)
  next
    case False
    then show ?thesis
      by (auto simp: read_transitions.simps [of i s]
          read_transitions.simps [of i "without_states s"])
  qed
qed

lemma scan_without:
  "map_sum id without_states (scan i next_state s) = scan i next_state (without_states s)"
proof (induction i next_state s rule: scan.induct)
  case (1 i next_state s)
  show ?case
    using "1.IH"
    by (auto simp: scan.simps [of i next_state s] scan.simps [of i next_state "without_states s"]
        print_def)
qed

lemma loop_body_without: "map_sum id without_states (loop_body s) = loop_body (without_states s)"
  using scan_without [of 0 "shd (cin s)" "asked s"]
  by (simp add: loop_body_scan asked_def prompts_def)

lemma session_without: "map_sum id without_states (session k s) = session k (without_states s)"
proof (induction k arbitrary: s)
  case 0
  show ?case by simp
next
  case (Suc k)
  show ?case
  proof (cases "loop_body s")
    case (Inl e)
    with loop_body_without [of s] have "loop_body (without_states s) = Inl e"
      by simp
    with Inl show ?thesis by simp
  next
    case (Inr t)
    with loop_body_without [of s] have "loop_body (without_states s) = Inr (without_states t)"
      by simp
    with Inr Suc.IH [of t] show ?thesis by simp
  qed
qed

lemma definition_phase_without:
  assumes "definition_phase (n1 ## input) = Inr s1" "definition_phase (n2 ## input) = Inr s2"
  shows "without_states s1 = without_states s2"
proof -
  define base where "base n = \<lparr>n_states = n, n_transitions = shd input,
      states = replicate (size_t_of n) 0,
      transitions_head = replicate (size_t_of (shd input)) 0,
      transitions_tail = replicate (size_t_of (shd input)) 0,
      current_state = 0, cin = stl input,
      cout = [Text ''number of state and transitions: '']\<rparr>" for n
  define start where "start s = (print [Text ''starting state: ''] s)
                 \<lparr>current_state := shd (cin s), cin := stl (cin s)\<rparr>" for s
  have start: "without_states (start s) = start (without_states s)" for s
    by (simp add: start_def without_states_def print_def)
  have base: "without_states (base n) = without_states (base n')" for n n'
    by (simp add: base_def without_states_def)
  have *: "\<exists>f r. fill_states 0 (base n) = Inr f \<and> read_transitions 0 f = Inr r \<and> s = start r"
    if "definition_phase (n ## input) = Inr s" for n s
    using that
    by (auto simp: definition_phase_def Let_def base_def start_def print_def
        split: if_splits sum.splits)
  have **: "Inr (without_states s) = map_sum id start (read_transitions 0 (without_states (base n)))"
    if "definition_phase (n ## input) = Inr s" for n s
  proof -
    from * [OF that] obtain f r where f: "fill_states 0 (base n) = Inr f"
      and r: "read_transitions 0 f = Inr r" and s: "s = start r"
      by blast
    from read_transitions_without [of 0 f] r fill_states_without [OF f]
    have "read_transitions 0 (without_states (base n)) = Inr (without_states r)"
      by simp
    with s start show ?thesis by simp
  qed
  have "Inr (without_states s1) =
          map_sum id start (read_transitions 0 (without_states (base n1)))"
    using assms(1) by (rule **)
  also have "\<dots> = map_sum id start (read_transitions 0 (without_states (base n2)))"
    using base [of n1 n2] by simp
  also have "\<dots> = Inr (without_states s2)"
    using ** [OF assms(2)] by simp
  finally show ?thesis by simp
qed

subsection \<open>Validity of the current state\<close>

lemma loop_body_valid:
  assumes "loop_body s = Inr s'" "current_state_valid s"
    "\<forall>t \<in> set (transitions_tail s). valid_state s t"
  shows "current_state_valid s'"
proof -
  from loop_body_cases [OF assms(1)]
  have "current_state s' = current_state s \<or> current_state s' \<in> set (transitions_tail s)"
    by (auto simp: asked_def print_def)
  moreover have "valid_state s' = valid_state s"
    using loop_body_frame(1) [OF assms(1)] by (simp add: valid_state_def fun_eq_iff)
  ultimately show ?thesis
    using assms(2,3) by (auto simp: current_state_valid_def)
qed

subsection \<open>Evaluating the example machines\<close>

lemma replicate_small:
  "replicate 2 x = [x, x]" "replicate 3 x = [x, x, x]" "replicate 5 x = [x, x, x, x, x]"
  by (simp_all add: numeral_2_eq_2 numeral_3_eq_3 eval_nat_numeral)

lemmas run_simps = definition_phase_def size_t_of_def print_def Let_def fill_states.simps
  read_transitions.simps scan.simps loop_body_def main_upto_def illegal_def successful_def
  chain_fsm_def branching_fsm_def chain_loading_def replicate_small table_ok_def printed_def

lemma definition_phase_chain:
  "definition_phase (shift [3, 2, 0, 1, 1, 2, c, r] (sconst 0)) =
     Inr ((chain_fsm c r)\<lparr>cout := chain_loading\<rparr>)"
  by (simp add: run_simps)

lemma definition_phase_chain5:
  "definition_phase (shift [5, 2, 0, 1, 1, 2, c, r] (sconst 0)) =
     Inr ((chain_fsm c r)\<lparr>cout := chain_loading, n_states := 5, states := [0, 1, 2, 3, 4]\<rparr>)"
  by (simp add: run_simps)


section \<open>The claims\<close>

text \<open>
  C1. The scan goes through the table in stored order and acts on the first entry whose
  \<open>from\<close> is the current state, at index \<open>i\<close>: when its \<open>to\<close> is the requested state
  the scan prints the success message and moves there, otherwise it prints the
  illegal-transition message and stops with nothing else changed. Nothing is asked of
  the entries after \<open>i\<close>: one of them may well lead to the requested state.
\<close>

theorem scan_stops_at_first_match:
  assumes "table_ok s" "i < size_t_of (n_transitions s)"
    "transitions_head s ! i = current_state s"
    "\<forall>j<i. transitions_head s ! j \<noteq> current_state s"
  shows "scan 0 next_state s =
     Inr (if transitions_tail s ! i = next_state
          then (print [successful] s)\<lparr>current_state := next_state\<rparr>
          else print [illegal] s)"
  using assms by (intro scan_first_match) auto

text \<open>
  In \<open>branching_fsm\<close> the first entry leaving state 0 is \<open>(0,2)\<close> at index 1; the
  request for state 1 is refused although \<open>(0,1)\<close> is stored at index 2.
\<close>

theorem scan_stops_at_first_match_witness:
  "table_ok branching_fsm \<and> (1::nat) < size_t_of (n_transitions branching_fsm) \<and>
   transitions_head branching_fsm ! 1 = current_state branching_fsm \<and>
   transitions_head branching_fsm ! 0 \<noteq> current_state branching_fsm \<and>
   transitions_tail branching_fsm ! 1 \<noteq> 1 \<and>
   transitions_head branching_fsm ! 2 = current_state branching_fsm \<and>
   transitions_tail branching_fsm ! 2 = 1 \<and>
   scan 0 1 branching_fsm = Inr (print [illegal] branching_fsm)"
  using scan_stops_at_first_match [of branching_fsm 1 1]
  by (simp add: table_ok_def size_t_of_def branching_fsm_def)

text \<open>
  C2. When an iteration prints the success message, \<open>current_state\<close> at its end is the
  requested next state, the integer the iteration read from \<open>cin\<close>.
\<close>

theorem successful_sets_next_state:
  assumes "loop_body s = Inr s'" "successful \<in> set (printed s s')"
  shows "current_state s' = shd (cin s)"
  using assms loop_body_cases [of s s'] successful_not_prompt [of s] successful_not_illegal
  by auto

theorem successful_sets_next_state_witness:
  "loop_body (chain_fsm 0 1) =
     Inr ((chain_fsm 0 1)\<lparr>current_state := 1, cin := sconst 0,
        cout := [Text ''current state: '', IntVal 0, Text ''\<newline>'', Text ''next state: '',
                 successful]\<rparr>) \<and>
   successful \<in> set (printed (chain_fsm 0 1)
     ((chain_fsm 0 1)\<lparr>current_state := 1, cin := sconst 0,
        cout := [Text ''current state: '', IntVal 0, Text ''\<newline>'', Text ''next state: '',
                 successful]\<rparr>)) \<and>
   current_state ((chain_fsm 0 1)\<lparr>current_state := 1, cin := sconst 0,
        cout := [Text ''current state: '', IntVal 0, Text ''\<newline>'', Text ''next state: '',
                 successful]\<rparr>) = shd (cin (chain_fsm 0 1))"
  using successful_sets_next_state
    [of "chain_fsm 0 1"
      "(chain_fsm 0 1)\<lparr>current_state := 1, cin := sconst 0,
        cout := [Text ''current state: '', IntVal 0, Text ''\<newline>'', Text ''next state: '',
                 successful]\<rparr>"]
  by (simp add: run_simps)

text \<open>
  C3. When no stored transition starts at the current state, the iteration prints the
  two prompts only, neither the success nor the illegal-transition message, and leaves
  \<open>current_state\<close> as it was.
\<close>

theorem no_match_is_silent:
  assumes "table_ok s" "current_state s \<notin> set (transitions_head s)"
  shows "\<exists>s'. loop_body s = Inr s' \<and>
     printed s s' =
       [Text ''current state: '', IntVal (current_state s), Text ''\<newline>'',
        Text ''next state: ''] \<and>
     successful \<notin> set (printed s s') \<and> illegal \<notin> set (printed s s') \<and>
     current_state s' = current_state s"
proof -
  have "\<forall>j. 0 \<le> j \<and> j < size_t_of (n_transitions (asked s)) \<longrightarrow>
          transitions_head (asked s) ! j \<noteq> current_state (asked s)"
    using assms by (auto simp: table_ok_def asked_def in_set_conv_nth)
  then have "loop_body s = Inr (asked s)"
    using assms(1) by (simp add: loop_body_scan scan_no_match)
  moreover have "current_state (asked s) = current_state s"
    by (simp add: asked_def)
  ultimately show ?thesis
    using successful_not_prompt [of s] illegal_not_prompt [of s] by (simp add: prompts_def)
qed

theorem no_match_is_silent_witness:
  "table_ok (chain_fsm 2 0) \<and>
   current_state (chain_fsm 2 0) \<notin> set (transitions_head (chain_fsm 2 0)) \<and>
   (\<exists>s'. loop_body (chain_fsm 2 0) = Inr s' \<and>
     printed (chain_fsm 2 0) s' =
       [Text ''current state: '', IntVal (current_state (chain_fsm 2 0)), Text ''\<newline>'',
        Text ''next state: ''] \<and>
     successful \<notin> set (printed (chain_fsm 2 0) s') \<and>
     illegal \<notin> set (printed (chain_fsm 2 0) s') \<and>
     current_state s' = current_state (chain_fsm 2 0))"
  using no_match_is_silent [of "chain_fsm 2 0"]
  by (simp add: table_ok_def size_t_of_def chain_fsm_def)

text \<open>
  C4. An iteration that does not print the success message, whether it prints the
  illegal-transition message or nothing, ends with the \<open>current_state\<close> it started with.
\<close>

theorem current_state_frame:
  assumes "loop_body s = Inr s'" "successful \<notin> set (printed s s')"
  shows "current_state s' = current_state s"
proof -
  from loop_body_cases [OF assms(1)] assms(2)
  have "s' = asked s \<or> s' = print [illegal] (asked s)"
    by auto
  then show ?thesis
    by (auto simp: asked_def print_def)
qed

theorem current_state_frame_witness:
  "loop_body (chain_fsm 0 2) =
     Inr ((chain_fsm 0 2)\<lparr>cin := sconst 0,
        cout := [Text ''current state: '', IntVal 0, Text ''\<newline>'', Text ''next state: '',
                 illegal]\<rparr>) \<and>
   successful \<notin> set (printed (chain_fsm 0 2)
     ((chain_fsm 0 2)\<lparr>cin := sconst 0,
        cout := [Text ''current state: '', IntVal 0, Text ''\<newline>'', Text ''next state: '',
                 illegal]\<rparr>)) \<and>
   current_state ((chain_fsm 0 2)\<lparr>cin := sconst 0,
        cout := [Text ''current state: '', IntVal 0, Text ''\<newline>'', Text ''next state: '',
                 illegal]\<rparr>) = current_state (chain_fsm 0 2)"
  using current_state_frame
    [of "chain_fsm 0 2"
      "(chain_fsm 0 2)\<lparr>cin := sconst 0,
        cout := [Text ''current state: '', IntVal 0, Text ''\<newline>'', Text ''next state: '',
                 illegal]\<rparr>"]
  by (simp add: run_simps)

text \<open>
  C5 as stated does not hold: the starting state is stored as read. With three states
  and the starting state 7 the definition phase completes, and the current state it
  leaves is outside \<open>[0, 3)\<close>.
\<close>

theorem current_state_invalid_after_loading:
  "map_sum id current_state_valid (main_upto 0 (shift [3, 2, 0, 1, 1, 2, 7] (sconst 0))) =
     Inr False"
  by (simp add: run_simps current_state_valid_def valid_state_def)

text \<open>
  C5, amended. When the starting state read in the definition phase and the \<open>to\<close> of
  every stored transition lie in \<open>[0, n_states)\<close>, the current state lies in
  \<open>[0, n_states)\<close> after any number of iterations.
\<close>

theorem current_state_stays_valid:
  assumes "definition_phase input = Inr s" "current_state_valid s"
    "\<forall>t \<in> set (transitions_tail s). valid_state s t"
    "session k s = Inr s'"
  shows "current_state_valid s'"
  using assms(2-)
proof (induction k arbitrary: s)
  case 0
  then show ?case by simp
next
  case (Suc k)
  from Suc.prems(3) obtain t where t: "loop_body s = Inr t" and rest: "session k t = Inr s'"
    by (auto split: sum.splits)
  have "current_state_valid t"
    using t Suc.prems(1,2) by (rule loop_body_valid)
  moreover have "\<forall>x \<in> set (transitions_tail t). valid_state t x"
    using Suc.prems(2) loop_body_frame(1,5) [OF t] by (simp add: valid_state_def)
  ultimately show ?case
    using rest by (rule Suc.IH)
qed

theorem current_state_stays_valid_witness:
  "definition_phase (shift [3, 2, 0, 1, 1, 2, 0, 1] (sconst 0)) =
     Inr ((chain_fsm 0 1)\<lparr>cout := chain_loading\<rparr>) \<and>
   current_state_valid ((chain_fsm 0 1)\<lparr>cout := chain_loading\<rparr>) \<and>
   transitions_tail ((chain_fsm 0 1)\<lparr>cout := chain_loading\<rparr>) = [1, 2] \<and>
   valid_state ((chain_fsm 0 1)\<lparr>cout := chain_loading\<rparr>) 1 \<and>
   valid_state ((chain_fsm 0 1)\<lparr>cout := chain_loading\<rparr>) 2 \<and>
   session 1 ((chain_fsm 0 1)\<lparr>cout := chain_loading\<rparr>) =
     Inr ((chain_fsm 1 0)\<lparr>cin := sconst 0,
        cout := chain_loading @
          [Text ''current state: '', IntVal 0, Text ''\<newline>'', Text ''next state: '',
           successful]\<rparr>) \<and>
   current_state_valid
     ((chain_fsm 1 0)\<lparr>cin := sconst 0,
        cout := chain_loading @
          [Text ''current state: '', IntVal 0, Text ''\<newline>'', Text ''next state: '',
           successful]\<rparr>)"
  using current_state_stays_valid
    [of "shift [3, 2, 0, 1, 1, 2, 0, 1] (sconst 0)"
      "(chain_fsm 0 1)\<lparr>cout := chain_loading\<rparr>" 1
      "(chain_fsm 1 0)\<lparr>cin := sconst 0,
        cout := chain_loading @
          [Text ''current state: '', IntVal 0, Text ''\<newline>'', Text ''next state: '',
           successful]\<rparr>"]
  by (simp add: run_simps current_state_valid_def valid_state_def)

text \<open>
  C6. After the definition phase any number of iterations runs through, and leaves the
  from-list and the to-list as loaded, each with its \<open>n_transitions\<close> cells.
\<close>

theorem transitions_immutable:
  assumes "definition_phase input = Inr s"
  shows "\<exists>s'. session k s = Inr s' \<and>
           transitions_head s' = transitions_head s \<and>
           transitions_tail s' = transitions_tail s \<and>
           length (transitions_head s') = size_t_of (n_transitions s) \<and>
           length (transitions_tail s') = size_t_of (n_transitions s)"
proof -
  from assms have ok: "table_ok s" by (rule definition_phase_table_ok)
  then obtain s' where s': "session k s = Inr s'"
    using session_total by blast
  from session_frame [OF s'] ok s' show ?thesis
    by (simp add: table_ok_def)
qed

theorem transitions_immutable_witness:
  "definition_phase (shift [3, 2, 0, 1, 1, 2, 0, 1] (sconst 0)) =
     Inr ((chain_fsm 0 1)\<lparr>cout := chain_loading\<rparr>) \<and>
   (\<exists>s'. session 2 ((chain_fsm 0 1)\<lparr>cout := chain_loading\<rparr>) = Inr s' \<and>
      transitions_head s' = transitions_head ((chain_fsm 0 1)\<lparr>cout := chain_loading\<rparr>) \<and>
      transitions_tail s' = transitions_tail ((chain_fsm 0 1)\<lparr>cout := chain_loading\<rparr>) \<and>
      length (transitions_head s') =
        size_t_of (n_transitions ((chain_fsm 0 1)\<lparr>cout := chain_loading\<rparr>)) \<and>
      length (transitions_tail s') =
        size_t_of (n_transitions ((chain_fsm 0 1)\<lparr>cout := chain_loading\<rparr>)))"
  using transitions_immutable
    [of "shift [3, 2, 0, 1, 1, 2, 0, 1] (sconst 0)"
      "(chain_fsm 0 1)\<lparr>cout := chain_loading\<rparr>" 2]
    definition_phase_chain [of 0 1]
  by simp

text \<open>
  C7. With three states and the transitions \<open>(0,1), (1,2)\<close>, starting at 0: the request
  for state 1 prints the success message and the current state becomes 1; the request
  for state 2, from state 0 again, prints the illegal-transition message and the current
  state stays 0. The list is the whole console output of the run.
\<close>

theorem chain_example:
  "map_sum id cout (main_upto 1 (shift [3, 2, 0, 1, 1, 2, 0, 1] (sconst 0))) =
     Inr (chain_loading @
          [Text ''current state: '', IntVal 0, Text ''\<newline>'', Text ''next state: '',
           Text ''transition successful\<newline>'']) \<and>
   map_sum id current_state (main_upto 1 (shift [3, 2, 0, 1, 1, 2, 0, 1] (sconst 0))) = Inr 1 \<and>
   map_sum id cout (main_upto 1 (shift [3, 2, 0, 1, 1, 2, 0, 2] (sconst 0))) =
     Inr (chain_loading @
          [Text ''current state: '', IntVal 0, Text ''\<newline>'', Text ''next state: '',
           Text ''illegal transition, not defined in transitions table\<newline>'']) \<and>
   map_sum id current_state (main_upto 1 (shift [3, 2, 0, 1, 1, 2, 0, 2] (sconst 0))) = Inr 0"
  by (simp add: run_simps)

text \<open>
  C8. An iteration inserts \<open>"current state: "\<close>, the current state and a newline, then
  \<open>"next state: "\<close>, reads one integer, and after that prints the success message, or
  the illegal-transition message, or nothing: never more than one message.
\<close>

theorem iteration_output:
  assumes "table_ok s"
  shows "\<exists>s' msg. loop_body s = Inr s' \<and>
     cout s' =
       cout s @
       [Text ''current state: '', IntVal (current_state s), Text ''\<newline>'',
        Text ''next state: ''] @ msg \<and>
     cin s' = stl (cin s) \<and> (msg = [successful] \<or> msg = [illegal] \<or> msg = [])"
proof -
  from loop_body_total [OF assms] obtain s' where s': "loop_body s = Inr s'" ..
  from loop_body_cases [OF s']
  have "cout s' = cout s @ prompts s @ [successful] \<or>
        cout s' = cout s @ prompts s @ [illegal] \<or>
        cout s' = cout s @ prompts s @ []"
    by (auto simp: asked_def print_def)
  with s' loop_body_frame(6) [OF s'] show ?thesis
    unfolding prompts_def by blast
qed

theorem iteration_output_witness:
  "table_ok (chain_fsm 0 1) \<and>
   (\<exists>s' msg. loop_body (chain_fsm 0 1) = Inr s' \<and>
     cout s' =
       cout (chain_fsm 0 1) @
       [Text ''current state: '', IntVal (current_state (chain_fsm 0 1)), Text ''\<newline>'',
        Text ''next state: ''] @ msg \<and>
     cin s' = stl (cin (chain_fsm 0 1)) \<and>
     (msg = [successful] \<or> msg = [illegal] \<or> msg = []))"
  using iteration_output [of "chain_fsm 0 1"]
  by (simp add: table_ok_def size_t_of_def chain_fsm_def)

text \<open>
  C9. The executor never returns, whatever the table, the state and the input: its value
  is \<open>None\<close>, and every number of iterations is completed, each followed by the next.
\<close>

theorem executor_never_returns:
  "table_ok s \<Longrightarrow> executor s = None \<and> (\<forall>k. \<exists>s'. session k s = Inr s')"
  using executor_not_Some [of s] session_total [of s] by (cases "executor s") auto

theorem executor_never_returns_witness:
  "table_ok (chain_fsm 0 1) \<and> executor (chain_fsm 0 1) = None \<and>
   (\<forall>k. \<exists>s'. session k (chain_fsm 0 1) = Inr s')"
  using executor_never_returns [of "chain_fsm 0 1"]
  by (simp add: table_ok_def size_t_of_def chain_fsm_def)

text \<open>
  C10. Two runs whose inputs differ only in \<open>n_states\<close>, both completing the definition
  phase, agree after every number of iterations on the console output and on the current
  state: the \<open>states\<close> array is written and never read.
\<close>

theorem n_states_not_observable:
  assumes "definition_phase (n1 ## input) = Inr s1" "definition_phase (n2 ## input) = Inr s2"
  shows "\<exists>t1 t2. session k s1 = Inr t1 \<and> session k s2 = Inr t2 \<and>
           cout t1 = cout t2 \<and> current_state t1 = current_state t2"
proof -
  from assms have "table_ok s1" "table_ok s2"
    by (simp_all add: definition_phase_table_ok)
  then obtain t1 t2 where t: "session k s1 = Inr t1" "session k s2 = Inr t2"
    using session_total by blast
  have "Inr (without_states t1) = map_sum id without_states (session k s1)"
    using t(1) by simp
  also have "\<dots> = session k (without_states s2)"
    using definition_phase_without [OF assms] by (simp add: session_without)
  also have "\<dots> = Inr (without_states t2)"
    using t(2) session_without [of k s2] by simp
  finally have "without_states t1 = without_states t2" by simp
  then have "cout (without_states t1) = cout (without_states t2)"
    "current_state (without_states t1) = current_state (without_states t2)"
    by simp_all
  then have "cout t1 = cout t2" "current_state t1 = current_state t2"
    by simp_all
  with t show ?thesis by blast
qed

theorem n_states_not_observable_witness:
  "definition_phase (3 ## shift [2, 0, 1, 1, 2, 0, 1] (sconst 0)) =
     Inr ((chain_fsm 0 1)\<lparr>cout := chain_loading\<rparr>) \<and>
   definition_phase (5 ## shift [2, 0, 1, 1, 2, 0, 1] (sconst 0)) =
     Inr ((chain_fsm 0 1)
           \<lparr>cout := chain_loading, n_states := 5, states := [0, 1, 2, 3, 4]\<rparr>) \<and>
   (\<exists>t1 t2.
      session 1 ((chain_fsm 0 1)\<lparr>cout := chain_loading\<rparr>) = Inr t1 \<and>
      session 1 ((chain_fsm 0 1)
           \<lparr>cout := chain_loading, n_states := 5, states := [0, 1, 2, 3, 4]\<rparr>) = Inr t2 \<and>
      cout t1 = cout t2 \<and> current_state t1 = current_state t2)"
  using n_states_not_observable
    [of 3 "shift [2, 0, 1, 1, 2, 0, 1] (sconst 0)"
      "(chain_fsm 0 1)\<lparr>cout := chain_loading\<rparr>" 5
      "(chain_fsm 0 1)\<lparr>cout := chain_loading, n_states := 5, states := [0, 1, 2, 3, 4]\<rparr>" 1]
    definition_phase_chain [of 0 1] definition_phase_chain5 [of 0 1]
  by simp

end
